theory Spec2Isabelle
  imports Main "HOL-Library.Word" "HOL-Library.Signed_Division" "HOL-Library.Finite_Map"
begin

unbundle bit_operations_syntax

section \<open>Data model of PTXStream.cpp\<close>

text \<open>
  The pinned staging pool of the PTX JNI driver. The C++ file keeps three static
  pointers: \<^verbatim>\<open>head\<close> (the list of all allocated pinned regions, linked through
  \<^verbatim>\<open>next\<close>) and \<^verbatim>\<open>front\<close>/\<^verbatim>\<open>rear\<close> (the queue of free regions). The CUDA driver and
  the JNI environment are external; the model keeps what the code can observe of them.
\<close>

type_synonym CUresult = "32 word"
type_synonym size_t = "64 word"
type_synonym jlong = "64 word"
type_synonym jsize = "32 word"
type_synonym addr = nat
type_synonym CUstream = nat
type_synonym CUevent = nat
type_synonym jarray = nat

abbreviation (input) CUDA_SUCCESS :: CUresult where
  "CUDA_SUCCESS \<equiv> 0"

text \<open>Undefined behaviour of the C++ code is a value of the model, never a silent default.\<close>

datatype fault = NullDereference | UseAfterFree | DivideByZero | SignedOverflow

text \<open>
  A host pointer handed to the driver: memory returned by \<^verbatim>\<open>cuMemAllocHost\<close>, or the
  elements of a Java array obtained with \<^verbatim>\<open>GetPrimitiveArrayCritical\<close>, plus a byte offset.
\<close>

datatype hostptr = PinnedMem nat | ArrayMem jarray jlong

text \<open>
  What a buffer holds, kept abstract: nothing written yet, the bytes of a device range
  as a device-to-host copy delivered them, or the bytes read from a region of a Java array.
\<close>

datatype blob = Garbage | DeviceBytes jlong size_t | ArrayBytes jarray jsize jsize

text \<open>
  \<^verbatim>\<open>struct area_list { struct area_list *next; void *staging_area; size_t length; }\<close>.
  A null pointer is \<open>None\<close>.
\<close>

record StagingAreaList =
  next_area :: "addr option"
  staging_area :: "hostptr option"
  length_area :: size_t

text \<open>Work queued on a device stream, executed by the device in issue order.\<close>

datatype dev_op =
    CopyDtoH "hostptr option" jlong size_t
  | CopyHtoD jlong "hostptr option" size_t
  | EventRecord CUevent
  | HostFunc "addr option"

text \<open>The driver functions whose status the code receives.\<close>

datatype drv_fn =
    MemAllocHost | MemFreeHost | MemcpyDtoHAsync | MemcpyHtoDAsync
  | EventQuery | EventSynchronize | StreamAddCallback | StreamDestroy

text \<open>The calls the code makes on the driver, the JNI environment and its own free queue, in order.\<close>

datatype call =
    CuMemAllocHost size_t CUresult
  | CuMemFreeHost "hostptr option" CUresult
  | CuMemcpyDtoHAsync "hostptr option" jlong size_t CUstream CUresult
  | CuMemcpyHtoDAsync jlong "hostptr option" size_t CUstream CUresult
  | CuEventRecord CUevent CUstream
  | CuEventQuery CUevent CUresult
  | CuEventSynchronize CUevent CUresult
  | CuStreamAddCallback CUstream "addr option" CUresult
  | CuStreamDestroy CUstream CUresult
  | JniSetByteArrayRegion jarray jsize jsize "hostptr option"
  | JniGetByteArrayRegion jarray jsize jsize "hostptr option"
  | JniGetPrimitiveArrayCritical jarray
  | JniReleasePrimitiveArrayCritical jarray
  | Enqueue "addr option"

text \<open>
  The whole state. \<open>heap\<close> holds the malloc'ed \<^verbatim>\<open>StagingAreaList\<close> cells and \<open>brk\<close> is the
  next address malloc returns (addresses are never reused, so a stale pointer is always
  detected). \<open>queue\<close> is the chain of \<^verbatim>\<open>QueueNode\<close> cells from \<^verbatim>\<open>front\<close> to \<^verbatim>\<open>rear\<close>,
  given by their \<^verbatim>\<open>element\<close> fields. \<open>replies\<close> is the environment: for each driver
  function the statuses its coming calls return (none left: \<^verbatim>\<open>CUDA_SUCCESS\<close>).
  \<open>pinned\<close> maps the live pinned buffers to their contents, \<open>pending\<close> the work each stream
  has not executed yet, \<open>jarrays\<close> the regions written into each Java array (latest first).
\<close>

record state =
  heap :: "(addr, StagingAreaList) fmap"
  brk :: addr
  head :: "addr option"
  queue :: "addr option list"
  replies :: "drv_fn \<Rightarrow> CUresult list"
  next_buf :: nat
  pinned :: "nat \<rightharpoonup> blob"
  next_event :: CUevent
  event_stream :: "CUevent \<rightharpoonup> CUstream"
  pending :: "CUstream \<Rightarrow> dev_op list"
  jarrays :: "jarray \<Rightarrow> (jsize \<times> jsize \<times> blob) list"
  trace :: "call list"

definition init_state :: state where
  "init_state = \<lparr> heap = fmempty, brk = 0, head = None, queue = [],
     replies = (\<lambda>_. []), next_buf = 0, pinned = Map.empty, next_event = 0,
     event_stream = Map.empty, pending = (\<lambda>_. []), jarrays = (\<lambda>_. []), trace = [] \<rparr>"

definition log_call :: "call \<Rightarrow> state \<Rightarrow> state" where
  "log_call c s = s\<lparr>trace := trace s @ [c]\<rparr>"

section \<open>The free queue\<close>

text \<open>\<^verbatim>\<open>enqueue\<close>: a new node at the rear (the first node is front and rear at once).\<close>

definition enqueue :: "addr option \<Rightarrow> state \<Rightarrow> state" where
  "enqueue region s =
     log_call (Enqueue region)
       (case queue s of
          [] \<Rightarrow> s\<lparr>queue := [region]\<rparr>
        | _ # _ \<Rightarrow> s\<lparr>queue := queue s @ [region]\<rparr>)"

text \<open>\<^verbatim>\<open>dequeue\<close>: NULL on an empty queue, else the element of the front node, which is unlinked.\<close>

definition dequeue :: "state \<Rightarrow> addr option \<times> state" where
  "dequeue s =
     (case queue s of
        [] \<Rightarrow> (None, s)
      | region # rest \<Rightarrow> (region, s\<lparr>queue := rest\<rparr>))"

text \<open>\<^verbatim>\<open>free_queue\<close>: unlinks and frees node after node until \<^verbatim>\<open>front\<close> is NULL.\<close>

fun free_nodes :: "addr option list \<Rightarrow> addr option list" where
  "free_nodes [] = []"
| "free_nodes (node # rest) = free_nodes rest"

definition free_queue :: "state \<Rightarrow> state" where
  "free_queue s = (if queue s = [] then s else s\<lparr>queue := free_nodes (queue s)\<rparr>)"

section \<open>The driver's pinned memory\<close>

text \<open>The status the environment gives the next call of a driver function.\<close>

definition reply :: "drv_fn \<Rightarrow> state \<Rightarrow> CUresult \<times> state" where
  "reply f s =
     (case replies s f of
        [] \<Rightarrow> (CUDA_SUCCESS, s)
      | r # rs \<Rightarrow> (r, s\<lparr>replies := (replies s)(f := rs)\<rparr>))"

text \<open>
  \<^verbatim>\<open>cuMemAllocHost(pp, size)\<close>: on success a fresh pinned buffer, whose pointer the caller
  stores through \<^verbatim>\<open>pp\<close>; on failure \<^verbatim>\<open>*pp\<close> is not written.
\<close>

definition cuMemAllocHost :: "size_t \<Rightarrow> state \<Rightarrow> CUresult \<times> hostptr option \<times> state" where
  "cuMemAllocHost sz s =
     (let (r, s1) = reply MemAllocHost s;
          s2 = log_call (CuMemAllocHost sz r) s1
      in if r = CUDA_SUCCESS
         then (r, Some (PinnedMem (next_buf s2)),
               s2\<lparr>next_buf := Suc (next_buf s2),
                  pinned := (pinned s2)(next_buf s2 \<mapsto> Garbage)\<rparr>)
         else (r, None, s2))"

text \<open>\<^verbatim>\<open>cuMemFreeHost(p)\<close>: on success the pinned buffer \<open>p\<close> points to is no longer live.\<close>

definition cuMemFreeHost :: "hostptr option \<Rightarrow> state \<Rightarrow> CUresult \<times> state" where
  "cuMemFreeHost p s =
     (let (r, s1) = reply MemFreeHost s;
          s2 = log_call (CuMemFreeHost p r) s1
      in if r = CUDA_SUCCESS
         then (r, (case p of
                     Some (PinnedMem b) \<Rightarrow> s2\<lparr>pinned := (pinned s2)(b := None)\<rparr>
                   | _ \<Rightarrow> s2))
         else (r, s2))"

section \<open>Acquiring a staging region\<close>

definition malloc :: "state \<Rightarrow> addr \<times> state" where
  "malloc s = (brk s, s\<lparr>brk := Suc (brk s)\<rparr>)"

text \<open>
  \<^verbatim>\<open>check_or_init_staging_area(size, list)\<close>. Create: a new cell and a pinned buffer of
  \<open>size\<close> bytes. Update: a cell shorter than \<open>size\<close> has its buffer freed and
  allocated again. Each failing driver call returns NULL at once; the cell malloc'ed on
  the create path is then lost with its fields never written, so the heap does not
  record it.
\<close>

definition check_or_init_staging_area ::
    "size_t \<Rightarrow> addr option \<Rightarrow> state \<Rightarrow> fault + (addr option \<times> state)" where
  "check_or_init_staging_area sz list s =
     (case list of
        None \<Rightarrow>
          (let (l, s1) = malloc s;
               (result, p, s2) = cuMemAllocHost sz s1
           in if result \<noteq> CUDA_SUCCESS then Inr (None, s2)
              else Inr (Some l,
                        s2\<lparr>heap := fmupd l \<lparr>next_area = None, staging_area = p,
                                               length_area = sz\<rparr> (heap s2)\<rparr>))
      | Some l \<Rightarrow>
          (case fmlookup (heap s) l of
             None \<Rightarrow> Inl UseAfterFree
           | Some a \<Rightarrow>
               if length_area a < sz then
                 (let (result, s1) = cuMemFreeHost (staging_area a) s
                  in if result \<noteq> CUDA_SUCCESS then Inr (None, s1)
                     else (let (result, p, s2) = cuMemAllocHost sz s1
                           in if result \<noteq> CUDA_SUCCESS then Inr (None, s2)
                              else Inr (Some l,
                                        s2\<lparr>heap := fmupd l (a\<lparr>staging_area := p,
                                                                 length_area := sz\<rparr>)
                                                       (heap s2)\<rparr>)))
               else Inr (Some l, s)))"

text \<open>
  \<^verbatim>\<open>get_first_free_staging_area(size)\<close>: the front of the queue (or NULL) goes through
  \<^verbatim>\<open>check_or_init_staging_area\<close>; \<^verbatim>\<open>head\<close> is set only while it is NULL.
\<close>

definition get_first_free_staging_area ::
    "size_t \<Rightarrow> state \<Rightarrow> fault + (addr option \<times> state)" where
  "get_first_free_staging_area sz s =
     (let (list, s1) = dequeue s
      in case check_or_init_staging_area sz list s1 of
           Inl f \<Rightarrow> Inl f
         | Inr (list', s2) \<Rightarrow>
             Inr (list', if head s2 = None then s2\<lparr>head := list'\<rparr> else s2))"

text \<open>\<^verbatim>\<open>set_to_unused(hStream, status, list)\<close>: the stream callback; it enqueues the region.\<close>

definition set_to_unused :: "CUstream \<Rightarrow> CUresult \<Rightarrow> addr option \<Rightarrow> state \<Rightarrow> state" where
  "set_to_unused hStream status list s = enqueue list s"

section \<open>Releasing all pinned memory\<close>

text \<open>
  \<^verbatim>\<open>free_staging_area_list()\<close>: walks from \<^verbatim>\<open>head\<close> along \<^verbatim>\<open>next\<close>, frees each
  buffer and each cell, and returns the local \<^verbatim>\<open>result\<close>, which is declared without
  an initial value: \<open>None\<close> is that indeterminate value. A failing
  \<^verbatim>\<open>cuMemFreeHost\<close> is printed and the walk goes on.
\<close>

function free_staging_area_loop ::
    "CUresult option \<Rightarrow> state \<Rightarrow> fault + (CUresult option \<times> state)" where
  "free_staging_area_loop result s =
     (case head s of
        None \<Rightarrow> Inr (result, s)
      | Some h \<Rightarrow>
          (case fmlookup (heap s) h of
             None \<Rightarrow> Inl UseAfterFree
           | Some a \<Rightarrow>
               free_staging_area_loop
                 (Some (fst (cuMemFreeHost (staging_area a) s)))
                 ((snd (cuMemFreeHost (staging_area a) s))
                    \<lparr>head := next_area a,
                     heap := fmdrop h (heap (snd (cuMemFreeHost (staging_area a) s)))\<rparr>)))"
  by pat_completeness auto

lemma heap_reply [simp]: "heap (snd (reply f s)) = heap s"
  by (simp add: reply_def split: list.splits)

lemma heap_cuMemFreeHost [simp]: "heap (snd (cuMemFreeHost p s)) = heap s"
  by (simp add: cuMemFreeHost_def log_call_def reply_def Let_def
      split: list.splits option.splits hostptr.splits prod.splits)

termination free_staging_area_loop
proof (relation "measure (\<lambda>(result, s). card (fmdom' (heap s)))")
  show "wf (measure (\<lambda>(result, s). card (fmdom' (heap s))))"
    by simp
next
  fix result :: "CUresult option" and s :: state and h a
  assume "head s = Some h" and look: "fmlookup (heap s) h = Some a"
  have "h \<in> fmdom' (heap s)"
    using look by (rule fmdom'I)
  then have "card (fmdom' (heap s) - {h}) < card (fmdom' (heap s))"
    by (intro card_Diff1_less) simp_all
  then show "((Some (fst (cuMemFreeHost (staging_area a) s)),
               (snd (cuMemFreeHost (staging_area a) s))
                 \<lparr>head := next_area a,
                  heap := fmdrop h (heap (snd (cuMemFreeHost (staging_area a) s)))\<rparr>),
              (result, s)) \<in> measure (\<lambda>(result, s). card (fmdom' (heap s)))"
    by simp
qed

definition free_staging_area_list :: "state \<Rightarrow> fault + (CUresult option \<times> state)" where
  "free_staging_area_list s = free_staging_area_loop None s"

section \<open>Streams, events and the device\<close>

text \<open>The contents of the buffer a host pointer points to; a buffer that is not live holds garbage.\<close>

definition pinned_blob :: "hostptr option \<Rightarrow> state \<Rightarrow> blob" where
  "pinned_blob p s =
     (case p of
        Some (PinnedMem b) \<Rightarrow> (case pinned s b of Some c \<Rightarrow> c | None \<Rightarrow> Garbage)
      | _ \<Rightarrow> Garbage)"

definition write_pinned :: "hostptr option \<Rightarrow> blob \<Rightarrow> state \<Rightarrow> state" where
  "write_pinned p c s =
     (case p of
        Some (PinnedMem b) \<Rightarrow>
          (case pinned s b of Some _ \<Rightarrow> s\<lparr>pinned := (pinned s)(b \<mapsto> c)\<rparr> | None \<Rightarrow> s)
      | _ \<Rightarrow> s)"

text \<open>
  The device executes one queued operation. A device-to-host copy fills the pinned
  destination; a host function is the callback registered with \<^verbatim>\<open>cuStreamAddCallback\<close>,
  which in this file is always \<^verbatim>\<open>set_to_unused\<close>. Device memory and writes through a
  Java array's own memory are not tracked.
\<close>

fun dev_exec :: "CUstream \<Rightarrow> dev_op \<Rightarrow> state \<Rightarrow> state" where
  "dev_exec st (CopyDtoH dst dptr len) s = write_pinned dst (DeviceBytes dptr len) s"
| "dev_exec st (CopyHtoD dptr src len) s = s"
| "dev_exec st (EventRecord ev) s = s"
| "dev_exec st (HostFunc userData) s = set_to_unused st CUDA_SUCCESS userData s"

text \<open>The device executes the first \<open>n\<close> operations queued on a stream, in issue order.\<close>

fun dev_run :: "CUstream \<Rightarrow> nat \<Rightarrow> state \<Rightarrow> state" where
  "dev_run st 0 s = s"
| "dev_run st (Suc n) s =
     (case pending s st of
        [] \<Rightarrow> s
      | op # rest \<Rightarrow> dev_run st n (dev_exec st op (s\<lparr>pending := (pending s)(st := rest)\<rparr>)))"

text \<open>
  How many of the queued operations come up to and including the latest record of event
  \<open>ev\<close> (0 when no record of it is queued): an event stands for its latest record.
\<close>

definition ops_through :: "CUevent \<Rightarrow> dev_op list \<Rightarrow> nat" where
  "ops_through ev ops =
     (if EventRecord ev \<in> set ops
      then length ops - length (takeWhile (\<lambda>op. op \<noteq> EventRecord ev) (rev ops))
      else 0)"

text \<open>
  An event is complete once the device has executed everything queued on its stream
  up to and including its record.
\<close>

definition complete_event :: "CUevent \<Rightarrow> state \<Rightarrow> state" where
  "complete_event ev s =
     (case event_stream s ev of
        None \<Rightarrow> s
      | Some st \<Rightarrow> dev_run st (ops_through ev (pending s st)) s)"

definition issue :: "CUstream \<Rightarrow> dev_op \<Rightarrow> state \<Rightarrow> state" where
  "issue st op s = s\<lparr>pending := (pending s)(st := pending s st @ [op])\<rparr>"

text \<open>
  Modelled from the spec: \<^verbatim>\<open>record_events_create\<close>, \<^verbatim>\<open>record_event_begin\<close>,
  \<^verbatim>\<open>record_event_end\<close> and \<^verbatim>\<open>wrapper_from_events\<close> are helpers of the repository that are
  not in the source given. The spec's EventBracket: a pair of markers, the first recorded
  on the stream before the next issued operation and the second after the operation just
  issued; the pair is returned to the caller as it is.
\<close>

definition record_events_create :: "state \<Rightarrow> (CUevent \<times> CUevent) \<times> state" where
  "record_events_create s =
     ((next_event s, Suc (next_event s)), s\<lparr>next_event := Suc (Suc (next_event s))\<rparr>)"

definition record_event :: "CUevent \<Rightarrow> CUstream \<Rightarrow> state \<Rightarrow> state" where
  "record_event ev st s =
     issue st (EventRecord ev)
       (log_call (CuEventRecord ev st) (s\<lparr>event_stream := (event_stream s)(ev \<mapsto> st)\<rparr>))"

definition record_event_begin :: "CUevent \<Rightarrow> CUstream \<Rightarrow> state \<Rightarrow> state" where
  "record_event_begin beforeEvent st s = record_event beforeEvent st s"

definition record_event_end :: "CUevent \<Rightarrow> CUstream \<Rightarrow> state \<Rightarrow> state" where
  "record_event_end afterEvent st s = record_event afterEvent st s"

definition wrapper_from_events :: "CUevent \<Rightarrow> CUevent \<Rightarrow> CUevent \<times> CUevent" where
  "wrapper_from_events beforeEvent afterEvent = (beforeEvent, afterEvent)"

text \<open>
  The asynchronous driver calls: each takes its status from the environment and, on
  success, queues its work on the stream. \<^verbatim>\<open>cuEventQuery\<close> answers \<^verbatim>\<open>CUDA_SUCCESS\<close> exactly
  when the device has completed the event, so a success reply means the device has
  executed the work before it; \<^verbatim>\<open>cuEventSynchronize\<close> returns with success only
  after the device has done so.
\<close>

definition cuMemcpyDtoHAsync ::
    "hostptr option \<Rightarrow> jlong \<Rightarrow> size_t \<Rightarrow> CUstream \<Rightarrow> state \<Rightarrow> CUresult \<times> state" where
  "cuMemcpyDtoHAsync dst dptr len st s =
     (let (r, s1) = reply MemcpyDtoHAsync s;
          s2 = log_call (CuMemcpyDtoHAsync dst dptr len st r) s1
      in (r, if r = CUDA_SUCCESS then issue st (CopyDtoH dst dptr len) s2 else s2))"

definition cuMemcpyHtoDAsync ::
    "jlong \<Rightarrow> hostptr option \<Rightarrow> size_t \<Rightarrow> CUstream \<Rightarrow> state \<Rightarrow> CUresult \<times> state" where
  "cuMemcpyHtoDAsync dptr src len st s =
     (let (r, s1) = reply MemcpyHtoDAsync s;
          s2 = log_call (CuMemcpyHtoDAsync dptr src len st r) s1
      in (r, if r = CUDA_SUCCESS then issue st (CopyHtoD dptr src len) s2 else s2))"

definition cuStreamAddCallback ::
    "CUstream \<Rightarrow> addr option \<Rightarrow> state \<Rightarrow> CUresult \<times> state" where
  "cuStreamAddCallback st userData s =
     (let (r, s1) = reply StreamAddCallback s;
          s2 = log_call (CuStreamAddCallback st userData r) s1
      in (r, if r = CUDA_SUCCESS then issue st (HostFunc userData) s2 else s2))"

definition cuEventQuery :: "CUevent \<Rightarrow> state \<Rightarrow> CUresult \<times> state" where
  "cuEventQuery ev s =
     (let (r, s1) = reply EventQuery s;
          s2 = log_call (CuEventQuery ev r) s1
      in (r, if r = CUDA_SUCCESS then complete_event ev s2 else s2))"

definition cuEventSynchronize :: "CUevent \<Rightarrow> state \<Rightarrow> CUresult \<times> state" where
  "cuEventSynchronize ev s =
     (let (r, s1) = reply EventSynchronize s;
          s2 = log_call (CuEventSynchronize ev r) s1
      in (r, if r = CUDA_SUCCESS then complete_event ev s2 else s2))"

definition cuStreamDestroy :: "CUstream \<Rightarrow> state \<Rightarrow> CUresult \<times> state" where
  "cuStreamDestroy st s =
     (let (r, s1) = reply StreamDestroy s
      in (r, log_call (CuStreamDestroy st r) s1))"

section \<open>The JNI environment\<close>

text \<open>
  \<^verbatim>\<open>SetByteArrayRegion(array, start, len, buf)\<close> copies from the buffer into the Java
  array; \<^verbatim>\<open>GetByteArrayRegion\<close> copies the other way.
\<close>

definition SetByteArrayRegion ::
    "jarray \<Rightarrow> jsize \<Rightarrow> jsize \<Rightarrow> hostptr option \<Rightarrow> state \<Rightarrow> state" where
  "SetByteArrayRegion array start len buf s =
     log_call (JniSetByteArrayRegion array start len buf)
       (s\<lparr>jarrays := (jarrays s)(array := (start, len, pinned_blob buf s) # jarrays s array)\<rparr>)"

definition GetByteArrayRegion ::
    "jarray \<Rightarrow> jsize \<Rightarrow> jsize \<Rightarrow> hostptr option \<Rightarrow> state \<Rightarrow> state" where
  "GetByteArrayRegion array start len buf s =
     log_call (JniGetByteArrayRegion array start len buf)
       (write_pinned buf (ArrayBytes array start len) s)"

definition GetPrimitiveArrayCritical :: "jarray \<Rightarrow> state \<Rightarrow> hostptr option \<times> state" where
  "GetPrimitiveArrayCritical array s =
     (Some (ArrayMem array 0), log_call (JniGetPrimitiveArrayCritical array) s)"

definition ReleasePrimitiveArrayCritical :: "jarray \<Rightarrow> state \<Rightarrow> state" where
  "ReleasePrimitiveArrayCritical array s = log_call (JniReleasePrimitiveArrayCritical array) s"

text \<open>Pointer arithmetic \<^verbatim>\<open>native_array + host_offset\<close> on the elements of a Java array.\<close>

definition ptr_add :: "hostptr option \<Rightarrow> jlong \<Rightarrow> hostptr option" where
  "ptr_add p k =
     (case p of
        Some (ArrayMem array off) \<Rightarrow> Some (ArrayMem array (off + k))
      | _ \<Rightarrow> p)"

section \<open>The transfers\<close>

text \<open>Reading a field through a \<^verbatim>\<open>StagingAreaList *\<close>.\<close>

definition deref :: "addr option \<Rightarrow> state \<Rightarrow> fault + StagingAreaList" where
  "deref list s =
     (case list of
        None \<Rightarrow> Inl NullDereference
      | Some l \<Rightarrow> (case fmlookup (heap s) l of None \<Rightarrow> Inl UseAfterFree | Some a \<Rightarrow> Inr a))"

text \<open>
  \<^verbatim>\<open>jlong / int\<close>: the \<^verbatim>\<open>int\<close> is converted to 64 bits, the quotient truncates towards
  zero; a zero divisor and \<^verbatim>\<open>LLONG_MIN / -1\<close> are undefined.
\<close>

definition jlong_div :: "jlong \<Rightarrow> 32 word \<Rightarrow> fault + jlong" where
  "jlong_div a d =
     (if d = 0 then Inl DivideByZero
      else if a = - (2 ^ 63) \<and> d = - 1 then Inl SignedOverflow
      else Inr (word_of_int (sint a sdiv sint d)))"

text \<open>
  \<^verbatim>\<open>transferFromDeviceToHostBlock\<close>: the blocking device-to-host transfer. The result
  of \<^verbatim>\<open>get_first_free_staging_area\<close> is used without a check for NULL.
\<close>

definition transferFromDeviceToHostBlock ::
    "jlong \<Rightarrow> jlong \<Rightarrow> jarray \<Rightarrow> jlong \<Rightarrow> CUstream \<Rightarrow> 32 word \<Rightarrow> state
       \<Rightarrow> fault + ((CUevent \<times> CUevent) \<times> state)" where
  "transferFromDeviceToHostBlock device_ptr len array host_offset stream NATIVE_J_TYPE s =
     (case get_first_free_staging_area len s of
        Inl f \<Rightarrow> Inl f
      | Inr (staging_list, s1) \<Rightarrow>
          (let ((beforeEvent, afterEvent), s2) = record_events_create s1;
               s3 = record_event_begin beforeEvent stream s2
           in case deref staging_list s3 of
                Inl f \<Rightarrow> Inl f
              | Inr a \<Rightarrow>
                  (let (result, s4) =
                         cuMemcpyDtoHAsync (staging_area a) device_ptr len stream s3;
                       s5 = record_event_end afterEvent stream s4;
                       (q, s6) = cuEventQuery afterEvent s5;
                       s7 = (if q \<noteq> CUDA_SUCCESS
                             then snd (cuEventSynchronize afterEvent s6) else s6)
                   in case jlong_div host_offset NATIVE_J_TYPE of
                        Inl f \<Rightarrow> Inl f
                      | Inr start \<Rightarrow>
                          (case jlong_div len NATIVE_J_TYPE of
                             Inl f \<Rightarrow> Inl f
                           | Inr count \<Rightarrow>
                               (case deref staging_list s7 of
                                  Inl f \<Rightarrow> Inl f
                                | Inr a' \<Rightarrow>
                                    (let s8 = SetByteArrayRegion array (ucast start)
                                                (ucast count) (staging_area a') s7;
                                         s9 = set_to_unused stream result staging_list s8
                                     in Inr (wrapper_from_events beforeEvent afterEvent,
                                             s9)))))))"

text \<open>
  \<^verbatim>\<open>transferFromDeviceToHostAsync\<close>: the copy goes straight into the Java array's
  memory; no staging region is involved.
\<close>

definition transferFromDeviceToHostAsync ::
    "jlong \<Rightarrow> jlong \<Rightarrow> jarray \<Rightarrow> jlong \<Rightarrow> CUstream \<Rightarrow> state
       \<Rightarrow> (CUevent \<times> CUevent) \<times> state" where
  "transferFromDeviceToHostAsync device_ptr len array host_offset stream s =
     (let (native_array, s1) = GetPrimitiveArrayCritical array s;
          ((beforeEvent, afterEvent), s2) = record_events_create s1;
          s3 = record_event_begin beforeEvent stream s2;
          (result, s4) =
            cuMemcpyDtoHAsync (ptr_add native_array host_offset) device_ptr len stream s3;
          s5 = record_event_end afterEvent stream s4;
          (result, s6) = cuMemFreeHost native_array s5;
          s7 = ReleasePrimitiveArrayCritical array s6
      in (wrapper_from_events beforeEvent afterEvent, s7))"

text \<open>
  \<^verbatim>\<open>transferFromHostToDeviceBlocking\<close> and \<^verbatim>\<open>transferFromHostToDeviceAsync\<close>: the
  caller's data is copied into the staging region, the copy to the device is queued and
  \<^verbatim>\<open>set_to_unused\<close> is registered on the stream with the region as its argument.
\<close>

definition transferFromHostToDeviceBlocking ::
    "jlong \<Rightarrow> jlong \<Rightarrow> jarray \<Rightarrow> jlong \<Rightarrow> CUstream \<Rightarrow> 32 word \<Rightarrow> state
       \<Rightarrow> fault + ((CUevent \<times> CUevent) \<times> state)" where
  "transferFromHostToDeviceBlocking device_ptr len array host_offset stream numBytesNativeType s =
     (case get_first_free_staging_area len s of
        Inl f \<Rightarrow> Inl f
      | Inr (staging_list, s1) \<Rightarrow>
          (case jlong_div host_offset numBytesNativeType of
             Inl f \<Rightarrow> Inl f
           | Inr start \<Rightarrow>
               (case jlong_div len numBytesNativeType of
                  Inl f \<Rightarrow> Inl f
                | Inr count \<Rightarrow>
                    (case deref staging_list s1 of
                       Inl f \<Rightarrow> Inl f
                     | Inr a \<Rightarrow>
                         (let s2 = GetByteArrayRegion array (ucast start) (ucast count)
                                     (staging_area a) s1;
                              ((beforeEvent, afterEvent), s3) = record_events_create s2;
                              s4 = record_event_begin beforeEvent stream s3
                          in case deref staging_list s4 of
                               Inl f \<Rightarrow> Inl f
                             | Inr a' \<Rightarrow>
                                 (let (result, s5) =
                                        cuMemcpyHtoDAsync device_ptr (staging_area a') len
                                          stream s4;
                                      s6 = record_event_end afterEvent stream s5;
                                      (result, s7) =
                                        cuStreamAddCallback stream staging_list s6
                                  in Inr (wrapper_from_events beforeEvent afterEvent,
                                          s7)))))))"

definition transferFromHostToDeviceAsync ::
    "jlong \<Rightarrow> jlong \<Rightarrow> jarray \<Rightarrow> jlong \<Rightarrow> CUstream \<Rightarrow> 32 word \<Rightarrow> state
       \<Rightarrow> fault + ((CUevent \<times> CUevent) \<times> state)" where
  "transferFromHostToDeviceAsync device_ptr len array host_offset stream numBytesNativeType s =
     (case get_first_free_staging_area len s of
        Inl f \<Rightarrow> Inl f
      | Inr (staging_list, s1) \<Rightarrow>
          (case jlong_div host_offset numBytesNativeType of
             Inl f \<Rightarrow> Inl f
           | Inr start \<Rightarrow>
               (case jlong_div len numBytesNativeType of
                  Inl f \<Rightarrow> Inl f
                | Inr count \<Rightarrow>
                    (case deref staging_list s1 of
                       Inl f \<Rightarrow> Inl f
                     | Inr a \<Rightarrow>
                         (let s2 = GetByteArrayRegion array (ucast start) (ucast count)
                                     (staging_area a) s1;
                              ((beforeEvent, afterEvent), s3) = record_events_create s2;
                              s4 = record_event_begin beforeEvent stream s3
                          in case deref staging_list s4 of
                               Inl f \<Rightarrow> Inl f
                             | Inr a' \<Rightarrow>
                                 (let (result, s5) =
                                        cuMemcpyHtoDAsync device_ptr (staging_area a') len
                                          stream s4;
                                      s6 = record_event_end afterEvent stream s5;
                                      (result, s7) =
                                        cuStreamAddCallback stream staging_list s6
                                  in Inr (wrapper_from_events beforeEvent afterEvent,
                                          s7)))))))"

section \<open>Destroying the stream\<close>

text \<open>
  \<^verbatim>\<open>cuDestroyStream\<close>: the stream is destroyed, the queue and the region list are
  freed, and the two statuses are combined with a bitwise and:
  \<^verbatim>\<open>return (jlong) result & stagingAreaResult;\<close>. When \<^verbatim>\<open>free_staging_area_list\<close>
  returned its unset local, so is the value returned here (\<open>None\<close>).
\<close>

definition Java_uk_ac_manchester_tornado_drivers_ptx_PTXStream_cuDestroyStream ::
    "CUstream \<Rightarrow> state \<Rightarrow> fault + (jlong option \<times> state)" where
  "Java_uk_ac_manchester_tornado_drivers_ptx_PTXStream_cuDestroyStream stream s =
     (let (result, s1) = cuStreamDestroy stream s;
          s2 = free_queue s1
      in case free_staging_area_list s2 of
           Inl f \<Rightarrow> Inl f
         | Inr (stagingAreaResult, s3) \<Rightarrow>
             Inr (case stagingAreaResult of
                    None \<Rightarrow> None
                  | Some r \<Rightarrow> Some ((ucast result :: jlong) AND ucast r),
                  s3))"

section \<open>Observing the pool, and running sequences of operations\<close>

text \<open>
  The region registry: the cells reached from \<^verbatim>\<open>head\<close> along \<^verbatim>\<open>next\<close>. No more than
  \<open>brk\<close> cells were ever malloc'ed, so \<open>brk\<close> steps reach them all.
\<close>

fun registry_walk :: "nat \<Rightarrow> addr option \<Rightarrow> (addr, StagingAreaList) fmap \<Rightarrow> addr list" where
  "registry_walk 0 p hp = []"
| "registry_walk (Suc k) None hp = []"
| "registry_walk (Suc k) (Some l) hp =
     l # (case fmlookup hp l of None \<Rightarrow> [] | Some a \<Rightarrow> registry_walk k (next_area a) hp)"

definition registry :: "state \<Rightarrow> addr list" where
  "registry s = registry_walk (brk s) (head s) (heap s)"

text \<open>The regions in flight on a stream: those a queued callback will release.\<close>

fun callback_regions :: "dev_op list \<Rightarrow> addr list" where
  "callback_regions [] = []"
| "callback_regions (HostFunc (Some l) # ops) = l # callback_regions ops"
| "callback_regions (_ # ops) = callback_regions ops"

definition in_flight :: "CUstream \<Rightarrow> state \<Rightarrow> addr list" where
  "in_flight st s = callback_regions (pending s st)"

text \<open>Does the next call of driver function \<open>f\<close> succeed?\<close>

definition succeeds :: "drv_fn \<Rightarrow> state \<Rightarrow> bool" where
  "succeeds f s = (case replies s f of [] \<Rightarrow> True | r # _ \<Rightarrow> r = CUDA_SUCCESS)"

text \<open>
  What a client of the library does: the four transfers, the device making progress on
  a stream (which the client does not control), and the destruction of a stream.
\<close>

datatype op =
    DtoH_Block jlong jlong jarray jlong CUstream "32 word"
  | DtoH_Async jlong jlong jarray jlong CUstream
  | HtoD_Blocking jlong jlong jarray jlong CUstream "32 word"
  | HtoD_Async jlong jlong jarray jlong CUstream "32 word"
  | Device_Runs CUstream nat
  | Destroy_Stream CUstream

fun step :: "op \<Rightarrow> state \<Rightarrow> fault + state" where
  "step (DtoH_Block d n a off st ty) s =
     map_sum id snd (transferFromDeviceToHostBlock d n a off st ty s)"
| "step (DtoH_Async d n a off st) s = Inr (snd (transferFromDeviceToHostAsync d n a off st s))"
| "step (HtoD_Blocking d n a off st ty) s =
     map_sum id snd (transferFromHostToDeviceBlocking d n a off st ty s)"
| "step (HtoD_Async d n a off st ty) s =
     map_sum id snd (transferFromHostToDeviceAsync d n a off st ty s)"
| "step (Device_Runs st k) s = Inr (dev_run st k s)"
| "step (Destroy_Stream st) s =
     map_sum id snd (Java_uk_ac_manchester_tornado_drivers_ptx_PTXStream_cuDestroyStream st s)"

fun run :: "op list \<Rightarrow> state \<Rightarrow> fault + state" where
  "run [] s = Inr s"
| "run (x # xs) s = (case step x s of Inl f \<Rightarrow> Inl f | Inr s' \<Rightarrow> run xs s')"

text \<open>
  Sequences of acquire and release on the free pool alone. The run keeps the regions
  handed out and not yet released; releasing a region that is not held is misuse by the
  caller and stops the run.
\<close>

datatype pool_op = Acquire size_t | Release addr

datatype stop = Fault fault | LifecycleMisuse

fun pool_run :: "pool_op list \<Rightarrow> addr list \<Rightarrow> state \<Rightarrow> stop + (addr list \<times> state)" where
  "pool_run [] held s = Inr (held, s)"
| "pool_run (Acquire n # ops) held s =
     (case get_first_free_staging_area n s of
        Inl f \<Rightarrow> Inl (Fault f)
      | Inr (None, s') \<Rightarrow> pool_run ops held s'
      | Inr (Some l, s') \<Rightarrow> pool_run ops (l # held) s')"
| "pool_run (Release l # ops) held s =
     (if l \<in> set held
      then pool_run ops (remove1 l held) (set_to_unused 0 CUDA_SUCCESS (Some l) s)
      else Inl LifecycleMisuse)"

text \<open>How often the driver has freed the buffer \<open>p\<close> points to: the successful calls of \<^verbatim>\<open>cuMemFreeHost\<close> on it.\<close>

definition frees :: "hostptr option \<Rightarrow> state \<Rightarrow> nat" where
  "frees p s = length (filter (\<lambda>c. c = CuMemFreeHost p CUDA_SUCCESS) (trace s))"

text \<open>The status the next call of driver function \<open>f\<close> returns.\<close>

definition next_status :: "drv_fn \<Rightarrow> state \<Rightarrow> CUresult" where
  "next_status f s = (case replies s f of [] \<Rightarrow> CUDA_SUCCESS | r # _ \<Rightarrow> r)"

text \<open>The live pinned buffers once the buffer \<open>p\<close> points to has been freed.\<close>

definition unpin :: "hostptr option \<Rightarrow> (nat \<rightharpoonup> blob) \<Rightarrow> (nat \<rightharpoonup> blob)" where
  "unpin p pn = (case p of Some (PinnedMem b) \<Rightarrow> pn(b := None) | _ \<Rightarrow> pn)"

text \<open>
  The invariant of the free pool, for the regions \<open>held\<close> by the operations in flight:
  no region is queued twice or held twice, no held region is queued, the queue holds no
  null pointer, and every region queued or held is a cell that malloc has returned and
  that has not been freed.
\<close>

definition pool_inv :: "addr list \<Rightarrow> state \<Rightarrow> bool" where
  "pool_inv held s \<longleftrightarrow>
     distinct (queue s) \<and> distinct held \<and> None \<notin> set (queue s) \<and>
     (\<forall>l \<in> set held. Some l \<notin> set (queue s) \<and> l < brk s \<and> fmlookup (heap s) l \<noteq> None) \<and>
     (\<forall>l. Some l \<in> set (queue s) \<longrightarrow> l < brk s \<and> fmlookup (heap s) l \<noteq> None)"

text \<open>
  A pool whose only free region has a capacity of 16 bytes: a region is acquired on the
  fresh pool and released.
\<close>

definition one_free_region :: state where
  "one_free_region =
     (case get_first_free_staging_area 16 init_state of
        Inl f \<Rightarrow> init_state
      | Inr (list, s) \<Rightarrow> set_to_unused 0 CUDA_SUCCESS list s)"

text \<open>Kinds of calls in the trace: releases into the free queue, and the driver's pinned-memory calls.\<close>

definition is_enqueue :: "call \<Rightarrow> bool" where
  "is_enqueue c = (case c of Enqueue _ \<Rightarrow> True | _ \<Rightarrow> False)"

definition is_mem_call :: "call \<Rightarrow> bool" where
  "is_mem_call c = (case c of CuMemAllocHost _ _ \<Rightarrow> True | CuMemFreeHost _ _ \<Rightarrow> True | _ \<Rightarrow> False)"

text \<open>Writing \<open>c\<close> into the buffer \<open>p\<close> points to, when that buffer is live.\<close>

definition store :: "hostptr option \<Rightarrow> blob \<Rightarrow> (nat \<rightharpoonup> blob) \<Rightarrow> (nat \<rightharpoonup> blob)" where
  "store p c pn =
     (case p of
        Some (PinnedMem b) \<Rightarrow> (case pn b of Some _ \<Rightarrow> pn(b \<mapsto> c) | None \<Rightarrow> pn)
      | _ \<Rightarrow> pn)"


definition pin_op :: "dev_op \<Rightarrow> (nat \<rightharpoonup> blob) \<Rightarrow> (nat \<rightharpoonup> blob)" where
  "pin_op op pn = (case op of CopyDtoH dst d n \<Rightarrow> store dst (DeviceBytes d n) pn | _ \<Rightarrow> pn)"


definition waited :: "CUevent \<Rightarrow> state \<Rightarrow> state" where
  "waited a u =
     (if fst (cuEventQuery a u) \<noteq> 0
      then snd (cuEventSynchronize a (snd (cuEventQuery a u)))
      else snd (cuEventQuery a u))"






section \<open>Evaluating the code\<close>

lemmas transfer_defs =
  transferFromDeviceToHostBlock_def transferFromDeviceToHostAsync_def
  transferFromHostToDeviceBlocking_def transferFromHostToDeviceAsync_def
  record_events_create_def record_event_begin_def record_event_end_def record_event_def
  wrapper_from_events_def issue_def deref_def jlong_div_def
  cuMemcpyDtoHAsync_def cuMemcpyHtoDAsync_def cuStreamAddCallback_def cuEventQuery_def
  cuEventSynchronize_def complete_event_def ops_through_def
  SetByteArrayRegion_def GetByteArrayRegion_def GetPrimitiveArrayCritical_def
  ReleasePrimitiveArrayCritical_def ptr_add_def pinned_blob_def write_pinned_def

lemmas pool_defs =
  get_first_free_staging_area_def dequeue_def check_or_init_staging_area_def malloc_def
  cuMemAllocHost_def cuMemFreeHost_def reply_def log_call_def enqueue_def set_to_unused_def

lemmas destroy_defs =
  Java_uk_ac_manchester_tornado_drivers_ptx_PTXStream_cuDestroyStream_def
  cuStreamDestroy_def free_queue_def free_staging_area_list_def

lemma dev_run_numeral:
  "dev_run st (numeral k) s =
     (case pending s st of
        [] \<Rightarrow> s
      | op # rest \<Rightarrow>
          dev_run st (pred_numeral k) (dev_exec st op (s\<lparr>pending := (pending s)(st := rest)\<rparr>)))"
  by (simp add: numeral_eq_Suc)

lemma free_staging_area_list_no_region:
  "head s = None \<Longrightarrow> free_staging_area_list s = Inr (None, s)"
  by (simp add: free_staging_area_list_def)

lemma reply_eq:
  "reply f s = (next_status f s, s\<lparr>replies := (replies s)(f := tl (replies s f))\<rparr>)"
proof (cases "replies s f")
  case Nil
  then have "(replies s)(f := []) = replies s"
    by (simp add: fun_upd_idem)
  with Nil show ?thesis
    by (simp add: reply_def next_status_def)
next
  case (Cons r rs)
  then show ?thesis
    by (simp add: reply_def next_status_def)
qed

lemma succeeds_iff: "succeeds f s \<longleftrightarrow> next_status f s = 0"
  by (simp add: succeeds_def next_status_def split: list.splits)

lemma next_status_upd [simp]:
  "next_status f (s\<lparr>heap := h\<rparr>) = next_status f s"
  "next_status f (s\<lparr>brk := b\<rparr>) = next_status f s"
  "next_status f (s\<lparr>head := hd'\<rparr>) = next_status f s"
  "next_status f (s\<lparr>queue := q\<rparr>) = next_status f s"
  "next_status f (s\<lparr>next_buf := nb\<rparr>) = next_status f s"
  "next_status f (s\<lparr>pinned := pn\<rparr>) = next_status f s"
  "next_status f (s\<lparr>next_event := ne\<rparr>) = next_status f s"
  "next_status f (s\<lparr>event_stream := es\<rparr>) = next_status f s"
  "next_status f (s\<lparr>pending := pe\<rparr>) = next_status f s"
  "next_status f (s\<lparr>jarrays := ja\<rparr>) = next_status f s"
  "next_status f (s\<lparr>trace := tr\<rparr>) = next_status f s"
  "next_status f (s\<lparr>replies := (replies s')(g := rs)\<rparr>) =
     (if f = g then (case rs of [] \<Rightarrow> 0 | r # _ \<Rightarrow> r) else next_status f s')"
  by (simp_all add: next_status_def)

lemma cuMemFreeHost_eq:
  "cuMemFreeHost p s =
     (next_status MemFreeHost s,
      s\<lparr>replies := (replies s)(MemFreeHost := tl (replies s MemFreeHost)),
        trace := trace s @ [CuMemFreeHost p (next_status MemFreeHost s)],
        pinned := (if next_status MemFreeHost s = 0 then unpin p (pinned s) else pinned s)\<rparr>)"
  by (simp add: cuMemFreeHost_def reply_eq log_call_def unpin_def Let_def
      split: option.splits hostptr.splits)

lemmas acquire_defs =
  get_first_free_staging_area_def dequeue_def check_or_init_staging_area_def malloc_def
  cuMemAllocHost_def cuMemFreeHost_eq reply_eq log_call_def

lemma acquire_granted:
  assumes "get_first_free_staging_area n s = Inr (Some l, s')"
  shows "\<exists>a. fmlookup (heap s') l = Some a \<and> n \<le> length_area a"
  using assms
  by (auto simp: acquire_defs Let_def
      split: list.splits option.splits if_splits hostptr.splits)


section \<open>The free pool is never used twice\<close>

lemma acquire_empty:
  assumes "queue s = []"
  shows "\<exists>r s'. get_first_free_staging_area n s = Inr (r, s')
           \<and> (r = None \<or> r = Some (brk s)) \<and> queue s' = [] \<and> brk s' = Suc (brk s)
           \<and> (\<forall>l. fmlookup (heap s) l \<noteq> None \<longrightarrow> fmlookup (heap s') l \<noteq> None)
           \<and> (r \<noteq> None \<longrightarrow> fmlookup (heap s') (brk s) \<noteq> None)"
  using assms by (simp add: acquire_defs Let_def)

lemma acquire_front:
  assumes "queue s = Some l # q" and "fmlookup (heap s) l = Some a"
  shows "\<exists>r s'. get_first_free_staging_area n s = Inr (r, s')
           \<and> (r = None \<or> r = Some l) \<and> queue s' = q \<and> brk s' = brk s
           \<and> (\<forall>l'. fmlookup (heap s) l' \<noteq> None \<longrightarrow> fmlookup (heap s') l' \<noteq> None)"
  using assms by (simp add: acquire_defs Let_def)

lemma acquire_inv:
  assumes inv: "pool_inv held s"
  shows "case get_first_free_staging_area n s of
           Inl f \<Rightarrow> False
         | Inr (None, s') \<Rightarrow> pool_inv held s'
         | Inr (Some l, s') \<Rightarrow> l \<notin> set held \<and> Some l \<notin> set (queue s') \<and> pool_inv (l # held) s'"
proof (cases "queue s")
  case Nil
  from acquire_empty [OF Nil, of n] obtain r s' where
    eq: "get_first_free_staging_area n s = Inr (r, s')"
    and r: "r = None \<or> r = Some (brk s)" and q: "queue s' = []" and b: "brk s' = Suc (brk s)"
    and h: "\<forall>l. fmlookup (heap s) l \<noteq> None \<longrightarrow> fmlookup (heap s') l \<noteq> None"
    and new: "r \<noteq> None \<longrightarrow> fmlookup (heap s') (brk s) \<noteq> None"
    by blast
  have held: "\<forall>l \<in> set held. l < brk s \<and> fmlookup (heap s) l \<noteq> None" and d: "distinct held"
    using inv by (auto simp: pool_inv_def)
  have keep: "pool_inv held s'"
    using held d q b h by (auto simp: pool_inv_def less_Suc_eq)
  from r show ?thesis
  proof
    assume "r = None"
    with eq keep show ?thesis by simp
  next
    assume rs: "r = Some (brk s)"
    have "brk s \<notin> set held" using held by auto
    moreover have "pool_inv (brk s # held) s'"
      using held d q b h new rs by (auto simp: pool_inv_def less_Suc_eq)
    ultimately show ?thesis using eq rs q by simp
  qed
next
  case (Cons x q)
  from inv Cons obtain l where x: "x = Some l"
    by (cases x) (auto simp: pool_inv_def)
  from inv Cons x obtain a where a: "fmlookup (heap s) l = Some a"
    by (auto simp: pool_inv_def)
  from acquire_front [OF Cons [unfolded x] a, of n] obtain r s' where
    eq: "get_first_free_staging_area n s = Inr (r, s')"
    and r: "r = None \<or> r = Some l" and q: "queue s' = q" and b: "brk s' = brk s"
    and h: "\<forall>l'. fmlookup (heap s) l' \<noteq> None \<longrightarrow> fmlookup (heap s') l' \<noteq> None"
    by blast
  have parts: "distinct q" "Some l \<notin> set q" "None \<notin> set q" "distinct held" "l \<notin> set held"
    "l < brk s"
    "\<forall>l' \<in> set held. Some l' \<notin> set q \<and> l' < brk s \<and> fmlookup (heap s) l' \<noteq> None"
    "\<forall>l'. Some l' \<in> set q \<longrightarrow> l' < brk s \<and> fmlookup (heap s) l' \<noteq> None"
    using inv Cons x by (auto simp: pool_inv_def)
  have keep: "pool_inv held s'"
    using parts q b h by (simp add: pool_inv_def)
  from r show ?thesis
  proof
    assume "r = None"
    with eq keep show ?thesis by simp
  next
    assume rs: "r = Some l"
    have "pool_inv (l # held) s'"
      using parts q b h a by (simp add: pool_inv_def)
    with eq rs q parts show ?thesis by simp
  qed
qed

lemma release_inv:
  assumes "pool_inv held s" and "l \<in> set held"
  shows "pool_inv (remove1 l held) (set_to_unused st r (Some l) s)"
  using assms
  by (auto simp: pool_inv_def set_to_unused_def enqueue_def log_call_def split: list.splits)

lemma pool_run_inv:
  "pool_inv held s \<Longrightarrow>
     (case pool_run ops held s of
        Inl e \<Rightarrow> e = LifecycleMisuse
      | Inr (held', s') \<Rightarrow> pool_inv held' s')"
proof (induction ops arbitrary: held s)
  case Nil
  then show ?case by simp
next
  case (Cons x ops)
  show ?case
  proof (cases x)
    case (Acquire n)
    show ?thesis
    proof (cases "get_first_free_staging_area n s")
      case (Inl f)
      with acquire_inv [OF Cons.prems, of n] show ?thesis by simp
    next
      case (Inr rs)
      obtain r s' where rs: "rs = (r, s')" by (cases rs)
      show ?thesis
      proof (cases r)
        case None
        with Inr rs acquire_inv [OF Cons.prems, of n] have "pool_inv held s'" by simp
        from Cons.IH [OF this] show ?thesis using Acquire Inr rs None by simp
      next
        case (Some l)
        with Inr rs acquire_inv [OF Cons.prems, of n] have "pool_inv (l # held) s'" by simp
        from Cons.IH [OF this] show ?thesis using Acquire Inr rs Some by simp
      qed
    qed
  next
    case (Release l)
    show ?thesis
    proof (cases "l \<in> set held")
      case True
      from Cons.IH [OF release_inv [OF Cons.prems True]] show ?thesis
        using Release True by simp
    next
      case False
      with Release show ?thesis by simp
    qed
  qed
qed

lemma pool_inv_init: "pool_inv [] (init_state\<lparr>replies := rs\<rparr>)"
  by (simp add: pool_inv_def init_state_def)

text \<open>
  C8 (no double use): whatever the driver answers, after every sequence of acquires and
  matching releases on the fresh pool (a release of a region that is not held stops the
  run as misuse, and nothing else stops it), no region is held twice, no region is queued
  twice, no held region is in the free pool, and the next acquire, whatever its size,
  hands out a region that is not held; that region is not in the free pool afterwards.
\<close>

theorem C8_no_double_use:
  "case pool_run ops [] (init_state\<lparr>replies := rs\<rparr>) of
     Inl e \<Rightarrow> e = LifecycleMisuse
   | Inr (held, s) \<Rightarrow>
       distinct held \<and> distinct (queue s) \<and>
       (\<forall>l \<in> set held. Some l \<notin> set (queue s)) \<and>
       (\<forall>n. case get_first_free_staging_area n s of
               Inl f \<Rightarrow> False
             | Inr (None, s') \<Rightarrow> True
             | Inr (Some l, s') \<Rightarrow> l \<notin> set held \<and> Some l \<notin> set (queue s'))"
proof (cases "pool_run ops [] (init_state\<lparr>replies := rs\<rparr>)")
  case (Inl e)
  with pool_run_inv [OF pool_inv_init, of ops rs] show ?thesis by simp
next
  case (Inr hs)
  obtain held s where hs: "hs = (held, s)" by (cases hs)
  with Inr pool_run_inv [OF pool_inv_init, of ops rs] have inv: "pool_inv held s" by simp
  have "case get_first_free_staging_area n s of
               Inl f \<Rightarrow> False
             | Inr (None, s') \<Rightarrow> True
             | Inr (Some l, s') \<Rightarrow> l \<notin> set held \<and> Some l \<notin> set (queue s')" for n
    using acquire_inv [OF inv, of n] by (auto split: sum.splits option.splits)
  with inv show ?thesis
    using Inr hs by (simp add: pool_inv_def)
qed


theorem C8_no_double_use_witness:
  "(case pool_run [Acquire 16, Acquire 16, Release 0, Acquire 32] []
           (init_state\<lparr>replies := (\<lambda>_. [])\<rparr>) of
      Inl e \<Rightarrow> False
    | Inr (held, s) \<Rightarrow>
        held = [0, 1] \<and> queue s = [] \<and> distinct held \<and>
        Some 0 \<notin> set (queue s) \<and> Some 1 \<notin> set (queue s))"
  using C8_no_double_use [of "[Acquire 16, Acquire 16, Release 0, Acquire 32]" "\<lambda>_. []"]
  by (simp add: pool_defs init_state_def Let_def)

section \<open>Growing a region\<close>

text \<open>
  C6 (growth): when the only free region of the pool has a capacity below \<open>n\<close> and the
  driver's free and allocate calls succeed (C5 is about their failure),
  \<^verbatim>\<open>get_first_free_staging_area n\<close> hands out that region with its recorded length set
  to \<open>n\<close>, hence a capacity of at least \<open>n\<close>, and with a fresh pinned buffer; the calls
  it made are one \<^verbatim>\<open>cuMemFreeHost\<close> on the old buffer and then one
  \<^verbatim>\<open>cuMemAllocHost\<close> of \<open>n\<close> bytes, so the old buffer was freed exactly once, before
  the replacement was allocated.
\<close>

theorem C6_growth:
  assumes only: "queue s = [Some l]"
      and cell: "fmlookup (heap s) l = Some a"
      and small: "length_area a < n"
      and free_ok: "succeeds MemFreeHost s"
      and alloc_ok: "succeeds MemAllocHost s"
  shows "\<exists>s' a'. get_first_free_staging_area n s = Inr (Some l, s')
           \<and> fmlookup (heap s') l = Some a'
           \<and> length_area a' = n \<and> n \<le> length_area a'
           \<and> staging_area a' = Some (PinnedMem (next_buf s))
           \<and> pinned s' (next_buf s) = Some Garbage
           \<and> trace s' = trace s @ [CuMemFreeHost (staging_area a) 0, CuMemAllocHost n 0]
           \<and> frees (staging_area a) s' = Suc (frees (staging_area a) s)
           \<and> queue s' = []"
  using assms
  by (simp add: acquire_defs succeeds_iff frees_def Let_def)

theorem C6_growth_witness:
  "queue one_free_region = [Some 0]
     \<and> fmlookup (heap one_free_region) 0
         = Some \<lparr>next_area = None, staging_area = Some (PinnedMem 0), length_area = 16\<rparr>
     \<and> (16 :: size_t) < 32
     \<and> succeeds MemFreeHost one_free_region \<and> succeeds MemAllocHost one_free_region
     \<and> (\<exists>s' a'. get_first_free_staging_area 32 one_free_region = Inr (Some 0, s')
           \<and> fmlookup (heap s') 0 = Some a'
           \<and> length_area a' = 32 \<and> 32 \<le> length_area a'
           \<and> staging_area a' = Some (PinnedMem 1)
           \<and> pinned s' 1 = Some Garbage
           \<and> trace s' = trace one_free_region
                          @ [CuMemFreeHost (Some (PinnedMem 0)) 0, CuMemAllocHost 32 0]
           \<and> frees (Some (PinnedMem 0)) s' = 1
           \<and> queue s' = [])"
proof -
  have q: "queue one_free_region = [Some 0]"
    and c: "fmlookup (heap one_free_region) 0
         = Some \<lparr>next_area = None, staging_area = Some (PinnedMem 0), length_area = 16\<rparr>"
    and f: "succeeds MemFreeHost one_free_region"
    and a: "succeeds MemAllocHost one_free_region"
    and nb: "next_buf one_free_region = 1"
    and fr: "frees (Some (PinnedMem 0)) one_free_region = 0"
    by (simp_all add: one_free_region_def pool_defs init_state_def succeeds_def frees_def Let_def)
  have lt: "(16 :: size_t) < 32" by simp
  from C6_growth [OF q c _ f a, of 32] lt nb fr q c f a show ?thesis
    by simp
qed

section \<open>The device executes a stream in order\<close>

lemma write_pinned_eq: "write_pinned p c s = s\<lparr>pinned := store p c (pinned s)\<rparr>"
  by (simp add: write_pinned_def store_def split: option.splits hostptr.splits)

lemma dom_store [simp]: "dom (store p c pn) = dom pn"
  by (auto simp: store_def split: option.splits hostptr.splits)

lemma enqueue_eq:
  "enqueue r s = s\<lparr>queue := queue s @ [r], trace := trace s @ [Enqueue r]\<rparr>"
  by (simp add: enqueue_def log_call_def split: list.splits)

lemma dev_exec_eq:
  "dev_exec st op s =
     s\<lparr>queue := queue s @ (case op of HostFunc r \<Rightarrow> [r] | _ \<Rightarrow> []),
       pinned := (case op of CopyDtoH dst d n \<Rightarrow> store dst (DeviceBytes d n) (pinned s)
                  | _ \<Rightarrow> pinned s),
       trace := trace s @ (case op of HostFunc r \<Rightarrow> [Enqueue r] | _ \<Rightarrow> [])\<rparr>"
  by (cases op) (simp_all add: write_pinned_eq set_to_unused_def enqueue_eq)

lemma dev_exec_fields [simp]:
  "heap (dev_exec st op s) = heap s"
  "head (dev_exec st op s) = head s"
  "brk (dev_exec st op s) = brk s"
  "replies (dev_exec st op s) = replies s"
  "next_buf (dev_exec st op s) = next_buf s"
  "next_event (dev_exec st op s) = next_event s"
  "event_stream (dev_exec st op s) = event_stream s"
  "jarrays (dev_exec st op s) = jarrays s"
  "pending (dev_exec st op s) = pending s"
  "dom (pinned (dev_exec st op s)) = dom (pinned s)"
  by (simp_all add: dev_exec_eq split: dev_op.splits)

lemma dev_run_fields [simp]:
  "heap (dev_run st n s) = heap s"
  "head (dev_run st n s) = head s"
  "brk (dev_run st n s) = brk s"
  "replies (dev_run st n s) = replies s"
  "next_buf (dev_run st n s) = next_buf s"
  "next_event (dev_run st n s) = next_event s"
  "event_stream (dev_run st n s) = event_stream s"
  "jarrays (dev_run st n s) = jarrays s"
  "dom (pinned (dev_run st n s)) = dom (pinned s)"
  by (induction n arbitrary: s; simp split: list.splits)+

lemma pending_dev_run: "pending (dev_run st n s) st = drop n (pending s st)"
  by (induction n arbitrary: s) (simp_all split: list.splits add: drop_Suc)

lemma dev_run_add: "dev_run st (m + k) s = dev_run st k (dev_run st m s)"
proof (induction m arbitrary: s)
  case 0
  show ?case by simp
next
  case (Suc m)
  show ?case
  proof (cases "pending s st")
    case Nil
    then have "dev_run st k s = s" by (cases k) simp_all
    with Nil show ?thesis by simp
  next
    case (Cons op rest)
    with Suc.IH show ?thesis by simp
  qed
qed


lemma acquire_frame:
  assumes "get_first_free_staging_area n s = Inr (r, s')"
  shows "queue s' = tl (queue s)" "pending s' = pending s" "jarrays s' = jarrays s"
    "next_event s' = next_event s" "event_stream s' = event_stream s"
    "\<exists>X. trace s' = trace s @ X \<and> list_all is_mem_call X"
  using assms
  by (auto simp: acquire_defs Let_def is_mem_call_def
      split: list.splits option.splits if_splits)

lemma jlong_div_sizes:
  assumes "ty \<in> {1, 2, 4, 8}"
  shows "\<exists>q. jlong_div x ty = Inr q"
  using assms by (auto simp: jlong_div_def)

lemma HtoD_modes_agree: "transferFromHostToDeviceAsync = transferFromHostToDeviceBlocking"
  by (simp add: fun_eq_iff transferFromHostToDeviceAsync_def
      transferFromHostToDeviceBlocking_def)

lemmas stream_defs =
  record_events_create_def record_event_begin_def record_event_end_def record_event_def
  wrapper_from_events_def issue_def cuMemcpyDtoHAsync_def cuMemcpyHtoDAsync_def
  cuStreamAddCallback_def reply_eq log_call_def





lemma list_all_is_enqueue [simp]: "list_all is_enqueue (map Enqueue rs)"
  by (induction rs) (simp_all add: is_enqueue_def)

lemma dom_pin_op [simp]: "dom (pin_op op pn) = dom pn"
  by (simp add: pin_op_def split: dev_op.splits)


lemma ops_through_last [simp]: "ops_through ev (ops @ [EventRecord ev]) = Suc (length ops)"
  by (simp add: ops_through_def)

lemma ops_through_simps [simp]:
  "ops_through ev [] = 0"
  "ops_through ev (op # ops) =
     (if EventRecord ev \<in> set ops then Suc (ops_through ev ops)
      else if op = EventRecord ev then 1 else 0)"
  "ops_through ev (xs @ ys) =
     (if EventRecord ev \<in> set ys then length xs + ops_through ev ys else ops_through ev xs)"
proof -
  show "ops_through ev [] = 0"
    by (simp add: ops_through_def)
  have app: "ops_through ev (xs @ ys) =
     (if EventRecord ev \<in> set ys then length xs + ops_through ev ys else ops_through ev xs)"
    for xs ys
  proof (cases "EventRecord ev \<in> set ys")
    case True
    then have "\<not> (\<forall>x \<in> set (rev ys). x \<noteq> EventRecord ev)" by simp
    then have "takeWhile (\<lambda>op. op \<noteq> EventRecord ev) (rev ys @ rev xs)
             = takeWhile (\<lambda>op. op \<noteq> EventRecord ev) (rev ys)"
      by (simp add: takeWhile_append1 [where P = "\<lambda>op. op \<noteq> EventRecord ev"])
    moreover have "length (takeWhile (\<lambda>op. op \<noteq> EventRecord ev) (rev ys)) \<le> length ys"
      using length_takeWhile_le [of _ "rev ys"] by simp
    ultimately show ?thesis using True by (simp add: ops_through_def)
  next
    case False
    then have "\<forall>x \<in> set (rev ys). x \<noteq> EventRecord ev" by auto
    then have "takeWhile (\<lambda>op. op \<noteq> EventRecord ev) (rev ys @ rev xs)
             = rev ys @ takeWhile (\<lambda>op. op \<noteq> EventRecord ev) (rev xs)"
      by (intro takeWhile_append2) auto
    moreover have "length (takeWhile (\<lambda>op. op \<noteq> EventRecord ev) (rev xs)) \<le> length xs"
      using length_takeWhile_le [of _ "rev xs"] by simp
    ultimately show ?thesis using False by (simp add: ops_through_def)
  qed
  then show "ops_through ev (xs @ ys) =
     (if EventRecord ev \<in> set ys then length xs + ops_through ev ys else ops_through ev xs)" .
  from app [of "[op]" ops] show "ops_through ev (op # ops) =
     (if EventRecord ev \<in> set ops then Suc (ops_through ev ops)
      else if op = EventRecord ev then 1 else 0)"
    by (simp add: ops_through_def)
qed

section \<open>Host to device\<close>

lemma HtoD_blocking_effect:
  assumes ty: "ty \<in> {1, 2, 4, 8}"
      and acq: "get_first_free_staging_area len s = Inr (Some l, s1)"
  shows "\<exists>b a s' buf start count r1 r2.
      transferFromHostToDeviceBlocking device_ptr len array host_offset stream ty s
        = Inr ((b, a), s')
    \<and> trace s' = trace s1 @
        [JniGetByteArrayRegion array start count buf, CuEventRecord b stream,
         CuMemcpyHtoDAsync device_ptr buf len stream r1, CuEventRecord a stream,
         CuStreamAddCallback stream (Some l) r2]
    \<and> queue s' = queue s1
    \<and> pending s' stream = pending s1 stream @ [EventRecord b]
         @ (if r1 = 0 then [CopyHtoD device_ptr buf len] else [])
         @ [EventRecord a] @ (if r2 = 0 then [HostFunc (Some l)] else [])
    \<and> r2 = next_status StreamAddCallback s1"
proof -
  from acquire_granted [OF acq] obtain c where cell: "fmlookup (heap s1) l = Some c"
    by blast
  from jlong_div_sizes [OF ty] obtain start count where
    divs: "jlong_div host_offset ty = Inr start" "jlong_div len ty = Inr count"
    by blast
  show ?thesis
    by (simp add: transferFromHostToDeviceBlocking_def acq divs deref_def cell stream_defs
        GetByteArrayRegion_def write_pinned_eq Let_def)
qed


lemma dev_run_last_callback:
  assumes "pending s st = P @ [HostFunc r]"
  shows "\<exists>q. queue (dev_run st (length (pending s st)) s) = q @ [r]"
proof -
  let ?t = "dev_run st (length P) s"
  have "pending ?t st = [HostFunc r]"
    using assms by (simp add: pending_dev_run)
  then have "queue (dev_run st (Suc 0) ?t) = queue ?t @ [r]"
    by (simp add: dev_exec_eq)
  moreover have "dev_run st (length (pending s st)) s = dev_run st (Suc 0) ?t"
    using assms dev_run_add [of st "length P" "Suc 0" s] by simp
  ultimately show ?thesis by simp
qed

lemma last_still_pending:
  assumes "pending s st = P @ [x]" and "x \<notin> set (pending (dev_run st k s) st)"
  shows "pending (dev_run st k s) st = []"
proof (cases "k \<le> length P")
  case True
  with assms show ?thesis by (simp add: pending_dev_run)
next
  case False
  with assms show ?thesis by (simp add: pending_dev_run)
qed

text \<open>
  C4 (host to device, both modes): when a region \<open>l\<close> is granted, the calls of the
  transfer are, after the pinned-memory calls of the acquire, the copy of the caller's
  data into the region, the first event, the asynchronous copy, the second event and the
  registration of the callback: none of them waits and none releases the region, and the
  free queue is the one the acquire left. On the stream the callback is queued last,
  after the copy; when the registration succeeded, the callback is still queued as long
  as anything of the stream is, and once the stream has been executed the region is the
  last one released into the free queue.
\<close>

theorem C4_host_to_device_release_by_callback:
  assumes mode: "transfer = transferFromHostToDeviceBlocking
                 \<or> transfer = transferFromHostToDeviceAsync"
      and ty: "ty \<in> {1, 2, 4, 8}"
      and acq: "get_first_free_staging_area len s = Inr (Some l, s1)"
  shows "\<exists>b a s' buf start count r1 r2 X.
      transfer device_ptr len array host_offset stream ty s = Inr ((b, a), s')
    \<and> trace s' = trace s @ X @
        [JniGetByteArrayRegion array start count buf, CuEventRecord b stream,
         CuMemcpyHtoDAsync device_ptr buf len stream r1, CuEventRecord a stream,
         CuStreamAddCallback stream (Some l) r2]
    \<and> list_all is_mem_call X
    \<and> queue s' = tl (queue s)
    \<and> pending s' stream = pending s stream @ [EventRecord b]
         @ (if r1 = 0 then [CopyHtoD device_ptr buf len] else [])
         @ [EventRecord a] @ (if r2 = 0 then [HostFunc (Some l)] else [])
    \<and> (r2 = 0 \<longrightarrow>
         (\<forall>k. HostFunc (Some l) \<notin> set (pending (dev_run stream k s') stream)
                \<longrightarrow> pending (dev_run stream k s') stream = [])
         \<and> (\<exists>q. queue (dev_run stream (length (pending s' stream)) s') = q @ [Some l]))"
proof -
  from mode have same: "transfer = transferFromHostToDeviceBlocking"
    by (auto simp: HtoD_modes_agree)
  from HtoD_blocking_effect [OF ty acq, of device_ptr array host_offset stream]
  obtain b a s' buf start count r1 r2 where
    run: "transferFromHostToDeviceBlocking device_ptr len array host_offset stream ty s
            = Inr ((b, a), s')"
    and tr: "trace s' = trace s1 @
        [JniGetByteArrayRegion array start count buf, CuEventRecord b stream,
         CuMemcpyHtoDAsync device_ptr buf len stream r1, CuEventRecord a stream,
         CuStreamAddCallback stream (Some l) r2]"
    and qu: "queue s' = queue s1"
    and pe: "pending s' stream = pending s1 stream @ [EventRecord b]
         @ (if r1 = 0 then [CopyHtoD device_ptr buf len] else [])
         @ [EventRecord a] @ (if r2 = 0 then [HostFunc (Some l)] else [])"
    by blast
  from acquire_frame [OF acq] obtain X where
    X: "trace s1 = trace s @ X" "list_all is_mem_call X"
    and q1: "queue s1 = tl (queue s)" and p1: "pending s1 = pending s"
    by blast
  have late: "(\<forall>k. HostFunc (Some l) \<notin> set (pending (dev_run stream k s') stream)
                \<longrightarrow> pending (dev_run stream k s') stream = [])
         \<and> (\<exists>q. queue (dev_run stream (length (pending s' stream)) s') = q @ [Some l])"
    if "r2 = 0"
  proof -
    from pe that have last: "pending s' stream =
        (pending s1 stream @ [EventRecord b]
         @ (if r1 = 0 then [CopyHtoD device_ptr buf len] else [])
         @ [EventRecord a]) @ [HostFunc (Some l)]"
      by simp
    show ?thesis
      using last_still_pending [OF last] dev_run_last_callback [OF last] by blast
  qed
  show ?thesis
    using same run tr qu pe X q1 p1 late
    by (intro exI [of _ b] exI [of _ a] exI [of _ s'] exI [of _ buf] exI [of _ start]
        exI [of _ count] exI [of _ r1] exI [of _ r2] exI [of _ X]) simp
qed



theorem C4_host_to_device_release_by_callback_witness:
  "(1 :: 32 word) \<in> {1, 2, 4, 8}
   \<and> (\<exists>s1. get_first_free_staging_area 16 init_state = Inr (Some 0, s1))
   \<and> (\<exists>b a s' buf start count r1 r2 X.
      transferFromHostToDeviceAsync 100 16 7 0 1 1 init_state = Inr ((b, a), s')
    \<and> trace s' = trace init_state @ X @
        [JniGetByteArrayRegion 7 start count buf, CuEventRecord b 1,
         CuMemcpyHtoDAsync 100 buf 16 1 r1, CuEventRecord a 1,
         CuStreamAddCallback 1 (Some 0) r2]
    \<and> list_all is_mem_call X
    \<and> queue s' = tl (queue init_state)
    \<and> pending s' 1 = pending init_state 1 @ [EventRecord b]
         @ (if r1 = 0 then [CopyHtoD 100 buf 16] else [])
         @ [EventRecord a] @ (if r2 = 0 then [HostFunc (Some 0)] else [])
    \<and> (r2 = 0 \<longrightarrow>
         (\<forall>k. HostFunc (Some 0) \<notin> set (pending (dev_run 1 k s') 1)
                \<longrightarrow> pending (dev_run 1 k s') 1 = [])
         \<and> (\<exists>q. queue (dev_run 1 (length (pending s' 1)) s') = q @ [Some 0])))"
proof -
  have ty: "(1 :: 32 word) \<in> {1, 2, 4, 8}"
    by simp
  have "\<exists>s1. get_first_free_staging_area 16 init_state = Inr (Some 0, s1)"
    by (simp add: acquire_defs init_state_def Let_def next_status_def)
  then obtain s1 where acq: "get_first_free_staging_area 16 init_state = Inr (Some 0, s1)"
    by blast
  from C4_host_to_device_release_by_callback [OF disjI2 [OF refl] ty acq, of 100 7 0 1]
  show ?thesis
    using ty acq by blast
qed

section \<open>Device to host, blocking\<close>



lemma waited_frame [simp]:
  "heap (waited a u) = heap u" "jarrays (waited a u) = jarrays u"
  by (simp_all add: waited_def cuEventQuery_def cuEventSynchronize_def reply_eq log_call_def
      complete_event_def Let_def split: option.splits)


















section \<open>Tearing down\<close>

text \<open>
  C10 (releaseAll on an empty registry is a no-op that returns a well-defined status):
  the code does not return one. With \<^verbatim>\<open>head == NULL\<close> the loop of
  \<^verbatim>\<open>free_staging_area_list\<close> never runs, nothing is changed, and the function returns its
  local \<^verbatim>\<open>result\<close>, which was never given a value. Evaluated on the state in which no
  transfer has run yet: the state is unchanged, the status is the unset local.
\<close>

theorem C10_releaseAll_empty_returns_unset_result:
  "free_staging_area_list init_state = Inr (None, init_state)"
  by (simp add: free_staging_area_list_def init_state_def)

text \<open>
  C9 (the status of destroy surfaces every failure): the code combines the two statuses
  with a bitwise and, so a failure is lost whenever the other call succeeds. One region
  has been acquired (and is registered). First: \<^verbatim>\<open>cuStreamDestroy\<close> fails with 400
  (\<^verbatim>\<open>CUDA_ERROR_INVALID_HANDLE\<close>), the teardown succeeds, and the value returned is 0,
  \<^verbatim>\<open>CUDA_SUCCESS\<close>. Second: \<^verbatim>\<open>cuStreamDestroy\<close> succeeds, \<^verbatim>\<open>cuMemFreeHost\<close> fails with 1
  (\<^verbatim>\<open>CUDA_ERROR_INVALID_VALUE\<close>), and the value returned is 0 again.
\<close>

theorem C9_destroy_status_masks_failure:
  "(case get_first_free_staging_area 16 init_state of
      Inl f \<Rightarrow> False
    | Inr (l, s) \<Rightarrow>
        (case Java_uk_ac_manchester_tornado_drivers_ptx_PTXStream_cuDestroyStream 1
                (s\<lparr>replies := (replies s)(StreamDestroy := [400])\<rparr>) of
           Inl f \<Rightarrow> False
         | Inr (r, s') \<Rightarrow>
             r = Some 0 \<and>
             trace s' = [CuMemAllocHost 16 0, CuStreamDestroy 1 400,
                         CuMemFreeHost (Some (PinnedMem 0)) 0])
        \<and>
        (case Java_uk_ac_manchester_tornado_drivers_ptx_PTXStream_cuDestroyStream 1
                (s\<lparr>replies := (replies s)(MemFreeHost := [1])\<rparr>) of
           Inl f \<Rightarrow> False
         | Inr (r, s') \<Rightarrow>
             r = Some 0 \<and>
             trace s' = [CuMemAllocHost 16 0, CuStreamDestroy 1 0,
                         CuMemFreeHost (Some (PinnedMem 0)) 1]))"
  by (simp add: pool_defs destroy_defs init_state_def Let_def)

section \<open>The registry\<close>

text \<open>
  C1 (every region in the free pool or in flight is in the registry): the code registers
  only the first region it ever creates. \<^verbatim>\<open>get_first_free_staging_area\<close> sets
  \<^verbatim>\<open>head\<close> while it is NULL and never links a later region to the list (every cell is
  created with \<^verbatim>\<open>next = NULL\<close>). Two host-to-device transfers are issued one after the
  other, before the callback of the first has run: regions 0 and 1 are both in flight,
  and the registry holds region 0 alone.
\<close>

theorem C1_second_region_not_registered:
  "(case run [HtoD_Blocking 100 16 7 0 1 1, HtoD_Async 200 16 8 0 1 1] init_state of
      Inl f \<Rightarrow> False
    | Inr s \<Rightarrow> in_flight 1 s = [0, 1] \<and> queue s = [] \<and> registry s = [0])"
  by (simp add: pool_defs transfer_defs init_state_def Let_def in_flight_def registry_def)

text \<open>
  C2 (after destroy every region ever created has had its buffer released exactly once):
  the same two transfers, then the device executes all the work of the stream (both
  callbacks run and both regions are back in the free pool), then the stream is
  destroyed. The pool and the registry are empty afterwards, the buffer of region 0 has
  been freed once, and the buffer of region 1 has never been freed: it is still live.
\<close>

theorem C2_destroy_leaks_second_region:
  "(case run [HtoD_Blocking 100 16 7 0 1 1, HtoD_Async 200 16 8 0 1 1,
              Device_Runs 1 8, Destroy_Stream 1] init_state of
      Inl f \<Rightarrow> False
    | Inr s \<Rightarrow>
        queue s = [] \<and> registry s = [] \<and> pending s 1 = [] \<and>
        frees (Some (PinnedMem 0)) s = 1 \<and>
        frees (Some (PinnedMem 1)) s = 0 \<and>
        pinned s 1 = Some (ArrayBytes 8 0 16))"
  by (simp add: pool_defs transfer_defs destroy_defs init_state_def Let_def registry_def
      frees_def dev_run_numeral)

section \<open>Failure to acquire\<close>

text \<open>
  C5 (when the allocation fails the transfer aborts without a region): the pool is
  empty and \<^verbatim>\<open>cuMemAllocHost\<close> fails with 2 (\<^verbatim>\<open>CUDA_ERROR_OUT_OF_MEMORY\<close>).
  \<^verbatim>\<open>get_first_free_staging_area\<close> returns NULL and leaves the pool and the registry
  empty, as the claim says; but none of the three transfers that acquire a region checks
  the result: each goes on and reads \<^verbatim>\<open>staging_list->staging_area\<close> through the null
  pointer.
\<close>

theorem C5_failed_acquire_is_dereferenced:
  "(case get_first_free_staging_area 16
           (init_state\<lparr>replies := (\<lambda>_. [])(MemAllocHost := [2])\<rparr>) of
      Inl f \<Rightarrow> False
    | Inr (list, s) \<Rightarrow> list = None \<and> queue s = [] \<and> head s = None) \<and>
   transferFromDeviceToHostBlock 100 16 7 0 1 1
     (init_state\<lparr>replies := (\<lambda>_. [])(MemAllocHost := [2])\<rparr>) = Inl NullDereference \<and>
   transferFromHostToDeviceBlocking 100 16 7 0 1 1
     (init_state\<lparr>replies := (\<lambda>_. [])(MemAllocHost := [2])\<rparr>) = Inl NullDereference \<and>
   transferFromHostToDeviceAsync 100 16 7 0 1 1
     (init_state\<lparr>replies := (\<lambda>_. [])(MemAllocHost := [2])\<rparr>) = Inl NullDereference"
  by (simp add: pool_defs transfer_defs init_state_def Let_def)

section \<open>The non-blocking device-to-host transfer\<close>

text \<open>
  C7 (the non-blocking device-to-host transfer acquires no region and does not free the
  caller's destination): no region is acquired and the pool and the registry are
  untouched, as the claim says; but the code hands the memory of the caller's array,
  obtained with \<^verbatim>\<open>GetPrimitiveArrayCritical\<close>, to \<^verbatim>\<open>cuMemFreeHost\<close>, and releases the
  array, while the copy into that memory is still queued on the stream.
\<close>

theorem C7_async_read_frees_caller_memory:
  "(case transferFromDeviceToHostAsync 100 16 7 0 1 init_state of
      (ev, s) \<Rightarrow>
        trace s = [JniGetPrimitiveArrayCritical 7, CuEventRecord 0 1,
                   CuMemcpyDtoHAsync (Some (ArrayMem 7 0)) 100 16 1 0, CuEventRecord 1 1,
                   CuMemFreeHost (Some (ArrayMem 7 0)) 0,
                   JniReleasePrimitiveArrayCritical 7] \<and>
        pending s 1 = [EventRecord 0, CopyDtoH (Some (ArrayMem 7 0)) 100 16, EventRecord 1] \<and>
        queue s = [] \<and> head s = None \<and> heap s = fmempty)"
  by (simp add: pool_defs transfer_defs init_state_def Let_def)

end
